theory Spec2Isabelle
  imports Complex_Main "HOL-Library.Word"
begin

unbundle bit_operations_syntax

text \<open>
  A shallow embedding of three parts of SDATStuff: the NCSF (PSF) codec with its tag
  block (\<open>MakeNCSF\<close>, \<open>CheckForValidPSF\<close>, \<open>GetProgramSectionFromPSF\<close>,
  \<open>GetTagsFromPSF\<close>), the reader of a sequence file (\<open>SSEQ::Read\<close>) and the duration
  engine (\<open>GetTime\<close>). Exceptions are values of \<open>error + 'a\<close>; a function that
  moves the cursor returns the cursor; zlib and the sequence interpreter are parameters.
\<close>

section \<open>Bytes, strings and exceptions\<close>

text \<open>
  A \<open>uint8_t\<close> is an 8-bit word and a \<open>std::vector<uint8_t>\<close> a list of them. A
  \<open>std::string\<close> is the list of its \<open>char\<close> values, kept as bytes as well; a string
  literal of the source is written \<open>bytes_of ''...''\<close>. Where the source compares a
  \<open>char\<close> with a number the \<open>char\<close> is read as signed (\<open>sint\<close>), as it is on x86
  with GCC, Clang and MSVC.
\<close>

type_synonym byte = "8 word"
type_synonym cstring = "byte list"

definition bytes_of :: "string \<Rightarrow> byte list" where
  "bytes_of s = map of_char s"

text \<open>
  The exceptions of the source: \<open>std::range_error\<close> (the spec's size error) and
  \<open>std::runtime_error\<close> (the spec's format error). \<open>OutOfBounds\<close> stands for a read
  through a raw pointer past the end of a vector, which C++ leaves undefined.
\<close>

datatype error = RangeError | RuntimeError | OutOfBounds

section \<open>Binary cursor primitives\<close>

text \<open>
  Modelled from the spec: \<open>PseudoReadFile\<close> and \<open>PseudoWrite\<close> (common.h) are not
  among the sources. Spec 4.2: a read cursor wraps an immutable byte buffer with a
  mutable position; every read advances the position by the decoded width and fails
  with a range error if the read would exceed the buffer; all multi-byte integers are
  little-endian; the search returns a not-found sentinel distinct from any valid offset
  (\<open>-1\<close> in the callers, \<open>None\<close> here).
\<close>

record PseudoReadFile =
  data :: "byte list"
  pos :: nat

definition WriteLE32 :: "32 word \<Rightarrow> byte list" where
  "WriteLE32 w = [ucast w, ucast (drop_bit 8 w), ucast (drop_bit 16 w), ucast (drop_bit 24 w)]"

definition le32 :: "byte list \<Rightarrow> 32 word" where
  "le32 bs = ucast (bs ! 0) OR push_bit 8 (ucast (bs ! 1))
               OR push_bit 16 (ucast (bs ! 2)) OR push_bit 24 (ucast (bs ! 3))"

definition ReadLE_bytes :: "nat \<Rightarrow> PseudoReadFile \<Rightarrow> error + (byte list \<times> PseudoReadFile)" where
  "ReadLE_bytes n file =
     (if pos file + n \<le> length (data file)
      then Inr (take n (drop (pos file) (data file)), file\<lparr>pos := pos file + n\<rparr>)
      else Inl RangeError)"

definition ReadLE_u32 :: "PseudoReadFile \<Rightarrow> error + (32 word \<times> PseudoReadFile)" where
  "ReadLE_u32 file =
     (case ReadLE_bytes 4 file of Inl e \<Rightarrow> Inl e | Inr (bs, file') \<Rightarrow> Inr (le32 bs, file'))"

fun search :: "byte list \<Rightarrow> byte list \<Rightarrow> nat \<Rightarrow> nat option" where
  "search pat [] k = (if pat = [] then Some k else None)"
| "search pat (x # xs) k =
     (if take (length pat) (x # xs) = pat then Some k else search pat xs (Suc k))"

definition GetNextOffset :: "PseudoReadFile \<Rightarrow> nat \<Rightarrow> byte list \<Rightarrow> nat option" where
  "GetNextOffset file start arr = search arr (drop start (data file)) start"

section \<open>Portable-file codec\<close>

subsection \<open>MakeNCSF\<close>

text \<open>
  zlib is an external library: \<open>compress2\<close> stands for the bytes that
  \<open>compress2(..., 9)\<close> leaves in its output buffer (resized to the reported length), and
  \<open>crc32\<close> for zlib's checksum. The function returns the bytes written to the file
  called \<open>filename\<close>. The two length fields are written as \<open>uint32_t\<close>, so a longer
  section has its length truncated.
\<close>

definition MakeNCSF ::
  "(byte list \<Rightarrow> byte list) \<Rightarrow> (byte list \<Rightarrow> 32 word) \<Rightarrow>
     cstring \<Rightarrow> byte list \<Rightarrow> byte list \<Rightarrow> cstring list \<Rightarrow> byte list" where
  "MakeNCSF compress2 crc32 filename reservedSectionData programSectionData tags =
     (let programCompressedData =
            (if programSectionData = [] then [] else compress2 programSectionData);
          programCompressedSize = length programCompressedData
      in bytes_of ''PSF''
         @ [0x25]
         @ WriteLE32 (if reservedSectionData = [] then 0 else of_nat (length reservedSectionData))
         @ WriteLE32 (of_nat programCompressedSize)
         @ (if programCompressedSize \<noteq> 0 then WriteLE32 (crc32 programCompressedData)
            else WriteLE32 0)
         @ (if reservedSectionData \<noteq> [] then reservedSectionData else [])
         @ (if programCompressedData \<noteq> [] then programCompressedData else [])
         @ (if tags \<noteq> [] then bytes_of ''[TAG]'' @ concat (map (\<lambda>t. t @ [0x0A]) tags)
            else []))"

subsection \<open>CheckForValidPSF\<close>

text \<open>
  The result is the cursor as the function leaves it. \<open>reservedSize + 16\<close> and
  \<open>reservedSize + programCompressedSize + 16\<close> are \<open>uint32_t\<close> sums and wrap around
  before they are compared with the size of the buffer.
\<close>

definition CheckForValidPSF :: "PseudoReadFile \<Rightarrow> byte \<Rightarrow> error + PseudoReadFile" where
  "CheckForValidPSF file versionByte =
     (if length (data file) < 4 then Inl RangeError
      else (case ReadLE_bytes 4 (file\<lparr>pos := 0\<rparr>) of
        Inl e \<Rightarrow> Inl e
      | Inr (PSFHeader, file1) \<Rightarrow>
         (if PSFHeader ! 0 \<noteq> 0x50 \<or> PSFHeader ! 1 \<noteq> 0x53 \<or> PSFHeader ! 2 \<noteq> 0x46
          then Inl RuntimeError
          else if sint (PSFHeader ! 3) \<noteq> uint versionByte then Inl RuntimeError
          else if length (data file) < 16 then Inl RangeError
          else (case ReadLE_u32 file1 of
            Inl e \<Rightarrow> Inl e
          | Inr (reservedSize, file2) \<Rightarrow>
              (case ReadLE_u32 file2 of
                 Inl e \<Rightarrow> Inl e
               | Inr (programCompressedSize, file3) \<Rightarrow>
                  (let file4 = file3\<lparr>pos := pos file3 + 4\<rparr> in
                   if reservedSize \<noteq> 0 \<and> length (data file) < unat (reservedSize + 16)
                   then Inl RangeError
                   else
                    (let file5 = file4\<lparr>pos := pos file4 + unat reservedSize\<rparr> in
                     if programCompressedSize \<noteq> 0
                        \<and> length (data file) < unat (reservedSize + programCompressedSize + 16)
                     then Inl RangeError
                     else Inr file5)))))))"

subsection \<open>GetProgramSectionFromPSF\<close>

text \<open>
  \<open>inflate\<close> stands for the bytes a zlib stream decompresses to. zlib's
  \<open>uncompress(dest, &destLen, source, sourceLen)\<close> writes at most \<open>destLen\<close> of them
  over the start of \<open>dest\<close>; its return code is ignored by the source. \<open>resize\<close> is
  \<open>std::vector::resize\<close>, which fills with zero bytes. \<open>unsigned long\<close> is taken as
  64 bits wide (LP64), so the sum of the two 32-bit values does not wrap. The free function
  \<open>ReadLE<uint32_t>\<close> reads 4 bytes through a raw pointer into the header buffer.
\<close>

definition resize :: "nat \<Rightarrow> byte list \<Rightarrow> byte list" where
  "resize n xs = take n xs @ replicate (n - length xs) 0"

definition uncompress :: "(byte list \<Rightarrow> byte list) \<Rightarrow> byte list \<Rightarrow> nat \<Rightarrow> byte list \<Rightarrow> byte list" where
  "uncompress inflate dest destLen source =
     (let out = take destLen (inflate source) in out @ drop (length out) dest)"

definition GetProgramSectionFromPSF ::
  "(byte list \<Rightarrow> byte list) \<Rightarrow> PseudoReadFile \<Rightarrow> byte \<Rightarrow> 32 word \<Rightarrow> 32 word \<Rightarrow> bool
     \<Rightarrow> error + byte list" where
  "GetProgramSectionFromPSF inflate file versionByte programHeaderSize programSizeOffset addHeaderSize =
     (case CheckForValidPSF file versionByte of
        Inl e \<Rightarrow> Inl e
      | Inr file0 \<Rightarrow>
         (case ReadLE_u32 (file0\<lparr>pos := 4\<rparr>) of
            Inl e \<Rightarrow> Inl e
          | Inr (reservedSize, file1) \<Rightarrow>
             (case ReadLE_u32 file1 of
                Inl e \<Rightarrow> Inl e
              | Inr (programCompressedSize, file2) \<Rightarrow>
                 (let file3 = file2\<lparr>pos := pos file2 + 4\<rparr> in
                  if programCompressedSize = 0 then Inr []
                  else
                   (let file4 = (if reservedSize \<noteq> 0
                                 then file3\<lparr>pos := pos file3 + unat reservedSize\<rparr> else file3)
                    in case ReadLE_bytes (unat programCompressedSize) file4 of
                         Inl e \<Rightarrow> Inl e
                       | Inr (programSectionCompressed, file5) \<Rightarrow>
                          (let programSectionUncompressed =
                                 uncompress inflate (replicate (unat programHeaderSize) 0)
                                   (unat programHeaderSize) programSectionCompressed
                           in if unat programHeaderSize < unat programSizeOffset + 4
                              then Inl OutOfBounds
                              else
                               (let programUncompressedSize =
                                      unat (le32 (take 4 (drop (unat programSizeOffset)
                                                           programSectionUncompressed)))
                                      + (if addHeaderSize then unat programHeaderSize else 0)
                                in Inr (uncompress inflate
                                          (resize programUncompressedSize programSectionUncompressed)
                                          programUncompressedSize programSectionCompressed))))))))"

subsection \<open>Whitespace trimming\<close>

definition isWhitespace :: "byte \<Rightarrow> bool" where
  "isWhitespace x = (0x01 \<le> sint x \<and> sint x \<le> 0x20)"

definition LeftTrimWhitespace :: "cstring \<Rightarrow> cstring" where
  "LeftTrimWhitespace orig = dropWhile isWhitespace orig"

definition RightTrimWhitespace :: "cstring \<Rightarrow> cstring" where
  "RightTrimWhitespace orig = rev (dropWhile isWhitespace (rev orig))"

definition TrimWhitespace :: "cstring \<Rightarrow> cstring" where
  "TrimWhitespace orig = LeftTrimWhitespace (RightTrimWhitespace orig)"

subsection \<open>Tag Dictionary\<close>

text \<open>
  Modelled from the spec: \<open>TagList\<close> (TagList.h) is not among the sources. Spec 3 and
  4.1: a mapping from tag name to tag value whose insertion order is preserved for
  serialization, with \<open>set\<close> (an overwrite, \<open>tags[name] = value\<close> in the callers),
  \<open>exists\<close> and \<open>remove\<close>. It is an association list with one pair for each name, in
  insertion order; \<open>tags[name]\<close> read on an absent name is the empty string.
\<close>

type_synonym TagList = "(cstring \<times> cstring) list"

definition TagList_Exists :: "TagList \<Rightarrow> cstring \<Rightarrow> bool" where
  "TagList_Exists tags name = (map_of tags name \<noteq> None)"

definition TagList_Get :: "TagList \<Rightarrow> cstring \<Rightarrow> cstring" where
  "TagList_Get tags name = (case map_of tags name of None \<Rightarrow> [] | Some v \<Rightarrow> v)"

fun TagList_Set :: "TagList \<Rightarrow> cstring \<Rightarrow> cstring \<Rightarrow> TagList" where
  "TagList_Set [] name v = [(name, v)]"
| "TagList_Set ((k, w) # tags) name v =
     (if k = name then (k, v) # tags else (k, w) # TagList_Set tags name v)"

definition TagList_Remove :: "TagList \<Rightarrow> cstring \<Rightarrow> TagList" where
  "TagList_Remove tags name = filter (\<lambda>p. fst p \<noteq> name) tags"

subsection \<open>GetTagsFromPSF\<close>

text \<open>
  \<open>GetTagsFromPSF_loop\<close> is the \<open>for\<close> loop over the bytes after the marker, from
  \<open>file.pos = TagOffset + 5\<close> to the end of the buffer, with the loop's variables
  \<open>name\<close>, \<open>value\<close>, \<open>onName\<close> and \<open>tags\<close> (\<open>ch\<close> is the source's \<open>curr\<close>). The emptiness test of line 203 is made on
  the untrimmed strings, as in the source.
\<close>

fun GetTagsFromPSF_loop :: "byte list \<Rightarrow> cstring \<Rightarrow> cstring \<Rightarrow> bool \<Rightarrow> TagList \<Rightarrow> TagList" where
  "GetTagsFromPSF_loop [] name val onName tags = tags"
| "GetTagsFromPSF_loop (ch # bs) name val onName tags =
     (if ch = 0x0A then
        GetTagsFromPSF_loop bs [] [] True
          (if name \<noteq> [] \<and> val \<noteq> [] then
             (let name' = TrimWhitespace name; val' = TrimWhitespace val in
              if TagList_Exists tags name'
              then TagList_Set tags name' (TagList_Get tags name' @ [0x0A] @ val')
              else TagList_Set tags name' val')
           else tags)
      else if ch = 0x3D then GetTagsFromPSF_loop bs name val False tags
      else if onName then GetTagsFromPSF_loop bs (name @ [ch]) val onName tags
      else GetTagsFromPSF_loop bs name (val @ [ch]) onName tags)"

definition GetTagsFromPSF :: "PseudoReadFile \<Rightarrow> byte \<Rightarrow> error + TagList" where
  "GetTagsFromPSF file versionByte =
     (case CheckForValidPSF file versionByte of
        Inl e \<Rightarrow> Inl e
      | Inr file' \<Rightarrow>
         (case GetNextOffset file' 0 (bytes_of ''[TAG]'') of
            None \<Rightarrow> Inr []
          | Some TagOffset \<Rightarrow>
              Inr (GetTagsFromPSF_loop (drop (TagOffset + 5) (data file')) [] [] True [])))"

section \<open>Container entry model\<close>

text \<open>The entry structures of INFOEntry.h; a pointer is an address or null.\<close>

record INFOEntry =
  fileData :: "byte list"
  origFilename :: cstring
  sdatNumber :: cstring

record INFOEntrySEQ = INFOEntry +
  fileID :: "16 word"
  unknown :: "16 word"
  bank :: "16 word"
  vol :: byte
  cpr :: byte
  ppr :: byte
  ply :: byte
  unknown2 :: "byte list"
  sseq :: "nat option"

record INFOEntryBANK = INFOEntry +
  bank_fileID :: "16 word"
  bank_unknown :: "16 word"
  waveArc :: "nat \<Rightarrow> 16 word"
  sbnk :: "nat option"

record INFOEntryWAVEARC = INFOEntry +
  wavearc_fileID :: "16 word"
  wavearc_unknown :: "16 word"
  swar :: "nat option"

text \<open>
  Modelled from the spec: \<open>NDSStdHeader\<close> and \<open>VerifyHeader\<close> (NDSStdHeader.h,
  common.h) and the declaration of \<open>SSEQ\<close> (SSEQ.h) are not among the sources. Spec 4.3:
  the standard sub-header shared by all sub-files starts with a type tag and carries the
  declared size; a mismatch between the type tag and the expected 4-character code is a
  hard structural error. The header is read as the 16 bytes of the Nitro formats: type
  tag, the magic that \<open>Verify\<close> is called with, file size, header size, block count.
\<close>

record NDSStdHeader =
  hdr_type :: "byte list"
  hdr_magic :: "32 word"
  hdr_fileSize :: "32 word"
  hdr_structSize :: "16 word"
  hdr_blocks :: "16 word"

definition le16 :: "byte list \<Rightarrow> 16 word" where
  "le16 bs = ucast (bs ! 0) OR push_bit 8 (ucast (bs ! 1))"

definition ReadLE_u16 :: "PseudoReadFile \<Rightarrow> error + (16 word \<times> PseudoReadFile)" where
  "ReadLE_u16 file =
     (case ReadLE_bytes 2 file of Inl e \<Rightarrow> Inl e | Inr (bs, file') \<Rightarrow> Inr (le16 bs, file'))"

definition VerifyHeader :: "byte list \<Rightarrow> string \<Rightarrow> bool" where
  "VerifyHeader arr header = (arr = bytes_of header)"

definition NDSStdHeader_Read :: "PseudoReadFile \<Rightarrow> error + (NDSStdHeader \<times> PseudoReadFile)" where
  "NDSStdHeader_Read file =
     (case ReadLE_bytes 4 file of
        Inl e \<Rightarrow> Inl e
      | Inr (t, file1) \<Rightarrow>
         (case ReadLE_u32 file1 of
            Inl e \<Rightarrow> Inl e
          | Inr (m, file2) \<Rightarrow>
             (case ReadLE_u32 file2 of
                Inl e \<Rightarrow> Inl e
              | Inr (fs, file3) \<Rightarrow>
                 (case ReadLE_u16 file3 of
                    Inl e \<Rightarrow> Inl e
                  | Inr (ss, file4) \<Rightarrow>
                     (case ReadLE_u16 file4 of
                        Inl e \<Rightarrow> Inl e
                      | Inr (b, file5) \<Rightarrow>
                          Inr (\<lparr>hdr_type = t, hdr_magic = m, hdr_fileSize = fs,
                                hdr_structSize = ss, hdr_blocks = b\<rparr>, file5))))))"

definition NDSStdHeader_Verify :: "NDSStdHeader \<Rightarrow> string \<Rightarrow> 32 word \<Rightarrow> bool" where
  "NDSStdHeader_Verify header typeToCheck magicToCheck =
     (VerifyHeader (hdr_type header) typeToCheck \<and> hdr_magic header = magicToCheck)"

record SSEQ =
  sseq_filename :: cstring
  sseq_origFilename :: cstring
  sseq_data :: "byte list"
  entryNumber :: nat

text \<open>
  \<open>SSEQ::Read\<close>. \<open>size - 12\<close> and \<open>startOfSSEQ + dataOffset\<close> are \<open>uint32_t\<close>
  expressions. \<open>this->data\<close> is resized to \<open>size - 12\<close> bytes and then filled from the
  cursor, so it ends as the bytes read. \<open>dataType\<close> and \<open>dataSize\<close> are the source's
  \<open>type\<close> and \<open>size\<close>.
\<close>

definition SSEQ_Read :: "SSEQ \<Rightarrow> PseudoReadFile \<Rightarrow> error + (SSEQ \<times> PseudoReadFile)" where
  "SSEQ_Read this file =
     (let startOfSSEQ = (of_nat (pos file) :: 32 word) in
      case NDSStdHeader_Read file of
        Inl e \<Rightarrow> Inl e
      | Inr (header, file1) \<Rightarrow>
         (if \<not> NDSStdHeader_Verify header ''SSEQ'' 0x0100FEFF then Inl RuntimeError
          else case ReadLE_bytes 4 file1 of
            Inl e \<Rightarrow> Inl e
          | Inr (dataType, file2) \<Rightarrow>
             (if \<not> VerifyHeader dataType ''DATA'' then Inl RuntimeError
              else case ReadLE_u32 file2 of
                Inl e \<Rightarrow> Inl e
              | Inr (dataSize, file3) \<Rightarrow>
                 (case ReadLE_u32 file3 of
                    Inl e \<Rightarrow> Inl e
                  | Inr (dataOffset, file4) \<Rightarrow>
                     (let n = unat (dataSize - 12);
                          file5 = file4\<lparr>pos := unat (startOfSSEQ + dataOffset)\<rparr>
                      in case ReadLE_bytes n file5 of
                           Inl e \<Rightarrow> Inl e
                         | Inr (bs, file6) \<Rightarrow> Inr (this\<lparr>sseq_data := bs\<rparr>, file6))))))"

section \<open>Duration estimation engine\<close>

text \<open>
  Modelled from the spec: \<open>Time\<close>, \<open>TimerPlayer\<close> (TimerPlayer.h), \<open>SDAT\<close> (SDAT.h),
  \<open>stringify\<close> and \<open>SecondsToString\<close> (common.h) are not among the sources. Spec 3:
  a verdict is a pair of an elapsed time, or the sentinel \<open>-1\<close>, and a classification
  (\<open>END\<close>: reached its natural end, \<open>LOOP\<close>: hit a loop or the time limit). The elapsed
  time is a \<open>double\<close> in the source and a real number here. Spec 4.5 and 6: the player
  is configured with the sequence and a label, an optional bank, up to four wave
  archives, a volume, note emission and a ceiling in seconds, and is then run on a
  thread of its own while the caller polls its \<open>doLength\<close> flag. The interpreter is
  outside the core: \<open>run\<close> gives, for a configured player, what each poll of the flag
  sees and the \<open>length\<close> the player holds when its thread has been joined. The record
  tables of the archive are read at resolved indices only and are functions of the index.
\<close>

datatype TimeType = LOOP | END

record Time =
  time :: real
  type :: TimeType

record SDAT =
  SEQrecord :: "nat \<Rightarrow> INFOEntrySEQ"
  BANKrecord :: "16 word \<Rightarrow> INFOEntryBANK"
  WAVEARCrecord :: "16 word \<Rightarrow> INFOEntryWAVEARC"

record TimerPlayer =
  player_sseq :: "SSEQ option"
  player_label :: cstring
  maxSeconds :: real
  sseqVol :: int
  player_sbnk :: "nat option"
  player_swar :: "nat \<Rightarrow> nat option"
  doNotes :: bool
  loops :: "32 word"

record player_run =
  doLength_at :: "nat \<Rightarrow> bool"
  length_after :: Time

definition new_TimerPlayer :: TimerPlayer where
  "new_TimerPlayer =
     \<lparr>player_sseq = None, player_label = [], maxSeconds = 0, sseqVol = 0,
      player_sbnk = None, player_swar = (\<lambda>i. None), doNotes = False, loops = 0\<rparr>"

definition Setup :: "TimerPlayer \<Rightarrow> SSEQ \<Rightarrow> cstring \<Rightarrow> TimerPlayer" where
  "Setup player sseqToPlay label = player\<lparr>player_sseq := Some sseqToPlay, player_label := label\<rparr>"

text \<open>The cast \<open>static_cast<int>\<close> of a \<open>double\<close> truncates towards zero.\<close>

definition static_cast_int :: "real \<Rightarrow> int" where
  "static_cast_int x = (if 0 \<le> x then \<lfloor>x\<rfloor> else \<lceil>x\<rceil>)"

text \<open>
  The polling loop of the inner \<open>GetTime\<close>: the value of \<open>i\<close> when the loop is left.
  The two callers pass the bounds 20 and 40, so \<open>i\<close> does not wrap.
\<close>

function GetTime_poll :: "(nat \<Rightarrow> bool) \<Rightarrow> nat \<Rightarrow> nat \<Rightarrow> nat" where
  "GetTime_poll doingLength loopCount i =
     (if i < loopCount
      then (if doingLength i then GetTime_poll doingLength loopCount (Suc i) else i)
      else i)"
  by pat_completeness auto
termination
  by (relation "measure (\<lambda>(d, loopCount, i). loopCount - i)") auto

declare GetTime_poll.simps [simp del]

definition GetTime_player ::
  "(TimerPlayer \<Rightarrow> player_run) \<Rightarrow> TimerPlayer \<Rightarrow> nat \<Rightarrow> 32 word \<Rightarrow> Time" where
  "GetTime_player run player loopCount numberOfLoops =
     (let started = run (player\<lparr>loops := numberOfLoops\<rparr>);
          i = GetTime_poll (doLength_at started) loopCount 0
      in if i = loopCount then \<lparr>time = - 1, type = LOOP\<rparr> else length_after started)"

definition Cnv_Scale_lut :: "int list" where
  "Cnv_Scale_lut =
     [-32768, -421, -361, -325, -300, -281, -265, -252,
      -240, -230, -221, -212, -205, -198, -192, -186,
      -180, -175, -170, -165, -161, -156, -152, -148,
      -145, -141, -138, -134, -131, -128, -125, -122,
      -120, -117, -114, -112, -110, -107, -105, -103,
      -100, -98, -96, -94, -92, -90, -88, -86,
      -85, -83, -81, -79, -78, -76, -74, -73,
      -71, -70, -68, -67, -65, -64, -62, -61,
      -60, -58, -57, -56, -54, -53, -52, -51,
      -49, -48, -47, -46, -45, -43, -42, -41,
      -40, -39, -38, -37, -36, -35, -34, -33,
      -32, -31, -30, -29, -28, -27, -26, -25,
      -24, -23, -23, -22, -21, -20, -19, -18,
      -17, -17, -16, -15, -14, -13, -12, -12,
      -11, -10, -9, -9, -8, -7, -6, -6,
      -5, -4, -3, -3, -2, -1, -1, 0]"

text \<open>\<open>Cnv_Scale\<close> is only called with the \<open>uint8_t\<close> volume of an entry.\<close>

definition Cnv_Scale :: "byte \<Rightarrow> int" where
  "Cnv_Scale scale =
     (let scale' = (if scale AND 0x80 \<noteq> 0 then 0x7F else scale)
      in Cnv_Scale_lut ! unat scale')"

text \<open>
  The outer \<open>GetTime\<close>, in two parts. \<open>GetTime_passes\<close> is lines 358 to 384: it gives
  the final \<open>length\<close>, \<open>gotLength\<close>, and the probes that were started, each with the
  player as configured and its poll bound. \<open>GetTime\<close> is the whole function: it gives
  the dictionary, the lines printed and the probes.
\<close>

definition GetTime_passes ::
  "(TimerPlayer \<Rightarrow> player_run) \<Rightarrow> SDAT \<Rightarrow> SSEQ \<Rightarrow> 32 word
     \<Rightarrow> Time \<times> bool \<times> (TimerPlayer \<times> nat) list" where
  "GetTime_passes run sdat sseqToTime numberOfLoops =
     (let info = SEQrecord sdat (entryNumber sseqToTime);
          player = (Setup new_TimerPlayer sseqToTime (origFilename info))\<lparr>maxSeconds := 6000\<rparr>;
          length1 = GetTime_player run player 20 numberOfLoops
      in if static_cast_int (time length1) \<noteq> - 1 \<and> type length1 = END then
           (let player2 = Setup (new_TimerPlayer\<lparr>sseqVol := Cnv_Scale (vol info)\<rparr>)
                            sseqToTime (origFilename info);
                sbnkInfo = BANKrecord sdat (bank info);
                player3 = player2\<lparr>player_sbnk := sbnk sbnkInfo\<rparr>;
                player4 = foldl (\<lambda>p i. if waveArc sbnkInfo i \<noteq> 0xFFFF
                                        then p\<lparr>player_swar := (player_swar p)
                                               (i := swar (WAVEARCrecord sdat (waveArc sbnkInfo i)))\<rparr>
                                        else p)
                            player3 [0, 1, 2, 3];
                player5 = player4\<lparr>maxSeconds := time length1 + 30, doNotes := True\<rparr>;
                oldLength = length1;
                length2 = GetTime_player run player5 40 numberOfLoops
            in if static_cast_int (time length2) \<noteq> - 1
               then (length2, True, [(player, 20), (player5, 40)])
               else (oldLength, False, [(player, 20), (player5, 40)]))
         else (length1, False, [(player, 20)]))"

definition GetTime ::
  "(TimerPlayer \<Rightarrow> player_run) \<Rightarrow> (32 word \<Rightarrow> cstring) \<Rightarrow> (real \<Rightarrow> cstring) \<Rightarrow>
     cstring \<Rightarrow> SDAT \<Rightarrow> SSEQ \<Rightarrow> TagList \<Rightarrow> bool \<Rightarrow> 32 word \<Rightarrow> 32 word \<Rightarrow> 32 word
     \<Rightarrow> TagList \<times> cstring list \<times> (TimerPlayer \<times> nat) list" where
  "GetTime run stringify SecondsToString filename sdat sseqToTime tags verbose
       numberOfLoops fadeLoop fadeOneShot =
     (case GetTime_passes run sdat sseqToTime numberOfLoops of
        (length0, gotLength, probes) \<Rightarrow>
          if static_cast_int (time length0) \<noteq> - 1 then
            (let tags1 = (if type length0 = LOOP
                          then TagList_Set tags (bytes_of ''fade'') (stringify fadeLoop)
                          else TagList_Set tags (bytes_of ''fade'') (stringify fadeOneShot));
                 length1 = (if static_cast_int (time length0) = 0
                            then length0\<lparr>time := 1\<rparr> else length0);
                 lengthString = SecondsToString (of_int \<lceil>time length1\<rceil>);
                 tags2 = TagList_Set tags1 (bytes_of ''length'') lengthString
             in (tags2,
                 (if verbose then
                    [bytes_of ''Time for '' @ filename @ bytes_of '': '' @ lengthString
                       @ bytes_of '' ('' @ (if type length1 = LOOP then bytes_of ''timed to 2 loops''
                                            else bytes_of ''one-shot'') @ bytes_of '')'' @ [0x0A]]
                    @ (if type length1 = END \<and> \<not> gotLength
                       then [bytes_of ''(NOTE: Was unable to detect silence at the end of the track, time may be inaccurate.)'' @ [0x0A]]
                       else [])
                  else []),
                 probes))
          else if verbose then
            (TagList_Remove (TagList_Remove tags (bytes_of ''fade'')) (bytes_of ''length''),
             [bytes_of ''Unable to calculate time for '' @ filename @ [0x0A]],
             probes)
          else (tags, [], probes))"

section \<open>Example inputs\<close>

text \<open>Buffers used below to run the functions.\<close>

definition psf_header :: "byte \<Rightarrow> 32 word \<Rightarrow> 32 word \<Rightarrow> 32 word \<Rightarrow> byte list" where
  "psf_header v r c crc = bytes_of ''PSF'' @ [v] @ WriteLE32 r @ WriteLE32 c @ WriteLE32 crc"

definition file_of :: "byte list \<Rightarrow> PseudoReadFile" where
  "file_of bs = \<lparr>data = bs, pos = 0\<rparr>"

definition overflow_psf :: "byte list" where
  "overflow_psf = psf_header 0x25 0xFFFFFFF0 0 0"

text \<open>
  A stand-in for zlib where a function has to be run: the program is stored as it is
  and the checksum is 0. It is a codec in the sense the theorems need: inflating the
  compressed bytes gives the program back.
\<close>

definition stored_compress2 :: "byte list \<Rightarrow> byte list" where
  "stored_compress2 bs = bs"

definition stored_inflate :: "byte list \<Rightarrow> byte list" where
  "stored_inflate bs = bs"

definition zero_crc32 :: "byte list \<Rightarrow> 32 word" where
  "zero_crc32 bs = 0"

definition tag_file :: "byte list \<Rightarrow> byte list" where
  "tag_file records = psf_header 0x25 0 0 0 @ bytes_of ''[TAG]'' @ records"

definition marker_in_reserved :: "byte list" where
  "marker_in_reserved =
     MakeNCSF stored_compress2 zero_crc32 [] (bytes_of ''[TAG]x=y'' @ [0x0A]) [] [bytes_of ''a=b'']"

text \<open>A sequence file, an archive and interpreters for the duration engine.\<close>

definition sseq_file :: "string \<Rightarrow> string \<Rightarrow> 32 word \<Rightarrow> 32 word \<Rightarrow> byte list \<Rightarrow> byte list" where
  "sseq_file tag dataTag dataSize dataOffset payload =
     bytes_of tag @ WriteLE32 0x0100FEFF @ WriteLE32 (of_nat (28 + length payload))
     @ [0x10, 0x00] @ [0x01, 0x00]
     @ bytes_of dataTag @ WriteLE32 dataSize @ WriteLE32 dataOffset @ payload"


definition example_sseq :: SSEQ where
  "example_sseq = \<lparr>sseq_filename = bytes_of ''a.sseq'', sseq_origFilename = bytes_of ''SEQ_A'',
                    sseq_data = [], entryNumber = 0\<rparr>"

definition example_sdat :: SDAT where
  "example_sdat =
     \<lparr>SEQrecord = (\<lambda>i. \<lparr>fileData = [], origFilename = bytes_of ''SEQ_A'', sdatNumber = [],
                         fileID = 0, unknown = 0, bank = 0, vol = 0x7F, cpr = 0, ppr = 0,
                         ply = 0, unknown2 = [0, 0], sseq = Some 0\<rparr>),
      BANKrecord = (\<lambda>i. \<lparr>fileData = [], origFilename = bytes_of ''BANK_A'', sdatNumber = [],
                          bank_fileID = 1, bank_unknown = 0,
                          waveArc = (\<lambda>k. if k = 0 then 0 else 0xFFFF), sbnk = Some 1\<rparr>),
      WAVEARCrecord = (\<lambda>i. \<lparr>fileData = [], origFilename = bytes_of ''WAVE_A'', sdatNumber = [],
                             wavearc_fileID = 2, wavearc_unknown = 0, swar = Some 2\<rparr>)\<rparr>"

definition never_finishes :: "TimerPlayer \<Rightarrow> player_run" where
  "never_finishes p = \<lparr>doLength_at = (\<lambda>i. True), length_after = \<lparr>time = 0, type = END\<rparr>\<rparr>"

definition finished_result :: player_run where
  "finished_result = \<lparr>doLength_at = (\<lambda>i. i < 3), length_after = \<lparr>time = 12.3, type = END\<rparr>\<rparr>"

definition one_shot :: "TimerPlayer \<Rightarrow> player_run" where
  "one_shot p = finished_result"

definition one_shot_then_stuck :: "TimerPlayer \<Rightarrow> player_run" where
  "one_shot_then_stuck p = (if doNotes p then never_finishes p else finished_result)"

definition looping_result :: player_run where
  "looping_result = \<lparr>doLength_at = (\<lambda>i. i < 3), length_after = \<lparr>time = 95, type = LOOP\<rparr>\<rparr>"

definition looping :: "TimerPlayer \<Rightarrow> player_run" where
  "looping p = looping_result"

definition digit :: "nat \<Rightarrow> byte" where
  "digit d = of_nat (48 + d)"

definition example_SecondsToString :: "real \<Rightarrow> cstring" where
  "example_SecondsToString s =
     (let n = nat \<lfloor>s\<rfloor> in [digit (n div 60), 0x3A, digit (n mod 60 div 10), digit (n mod 10)])"

definition example_stringify :: "32 word \<Rightarrow> cstring" where
  "example_stringify w = [digit (unat w div 10), digit (unat w mod 10)]"

definition stale_tags :: TagList where
  "stale_tags = [(bytes_of ''length'', bytes_of ''1:00''), (bytes_of ''fade'', bytes_of ''10'')]"

section \<open>Properties of CheckForValidPSF\<close>

lemma le32_WriteLE32: "le32 (WriteLE32 w) = w"
  unfolding le32_def WriteLE32_def
proof (rule bit_word_eqI)
  fix n :: nat
  assume "n < LENGTH(32)"
  then show "bit (ucast ([ucast w, ucast (drop_bit 8 w), ucast (drop_bit 16 w),
                 ucast (drop_bit 24 w)] ! 0 :: byte)
               OR push_bit 8 (ucast ([ucast w, ucast (drop_bit 8 w), ucast (drop_bit 16 w),
                 ucast (drop_bit 24 w)] ! 1 :: byte))
               OR push_bit 16 (ucast ([ucast w, ucast (drop_bit 8 w), ucast (drop_bit 16 w),
                 ucast (drop_bit 24 w)] ! 2 :: byte))
               OR push_bit 24 (ucast ([ucast w, ucast (drop_bit 8 w), ucast (drop_bit 16 w),
                 ucast (drop_bit 24 w)] ! 3 :: byte)) :: 32 word) n = bit w n"
    by (cases "n < 8"; cases "n < 16"; cases "n < 24") (auto simp: bit_simps)
qed

lemma CheckForValidPSF_small:
  "length (data file) < 4 \<Longrightarrow> CheckForValidPSF file versionByte = Inl RangeError"
  by (simp add: CheckForValidPSF_def)

text \<open>The order of the stages: a wrong magic is reported before the 16-byte size check.\<close>

lemma CheckForValidPSF_magic:
  assumes "4 \<le> length (data file)" and "take 3 (data file) \<noteq> bytes_of ''PSF''"
  shows "CheckForValidPSF file v = Inl RuntimeError"
proof -
  from assms(1) obtain a b c d rest where d: "data file = a # b # c # d # rest"
    by (cases "data file"; simp; rename_tac x xs; case_tac xs; simp; rename_tac y ys; case_tac ys; simp;
        rename_tac z zs; case_tac zs; simp)
  with assms(2) show ?thesis
    by (auto simp: CheckForValidPSF_def ReadLE_bytes_def bytes_of_def)
qed

lemma CheckForValidPSF_short_header:
  assumes "4 \<le> length (data file)" and "length (data file) < 16"
    and "take 4 (data file) = bytes_of ''PSF'' @ [v]" and "sint v = uint v"
  shows "CheckForValidPSF file v = Inl RangeError"
  using assms by (auto simp: CheckForValidPSF_def ReadLE_bytes_def bytes_of_def)

text \<open>
  C3. CheckForValidPSF checks 4 bytes, then the magic and the version, then 16 bytes,
  then the two section sizes; a buffer of 3 bytes is a size error. The minimum size
  \<open>16 + R\<close> is not enforced when the 32-bit sum wraps: on the 16-byte header with
  \<open>R = 0xFFFFFFF0\<close> and \<open>C = 0\<close> the sum \<open>R + 16\<close> is 0, and the buffer is accepted
  although it is far shorter than \<open>16 + R\<close>.
\<close>

theorem CheckForValidPSF_overflow_accepted:
  "length overflow_psf = 16
   \<and> le32 (take 4 (drop 4 overflow_psf)) = 0xFFFFFFF0
   \<and> length overflow_psf < 16 + unat (le32 (take 4 (drop 4 overflow_psf)))
   \<and> CheckForValidPSF (file_of overflow_psf) 0x25
       = Inr \<lparr>data = overflow_psf, pos = 16 + 0xFFFFFFF0\<rparr>
   \<and> CheckForValidPSF (file_of (take 3 overflow_psf)) 0x25 = Inl RangeError"
  by (simp add: overflow_psf_def psf_header_def bytes_of_def WriteLE32_def le32_def
      CheckForValidPSF_def ReadLE_bytes_def ReadLE_u32_def file_of_def)

theorem CheckForValidPSF_overflow_accepted_witness:
  "CheckForValidPSF (file_of overflow_psf) 0x25 \<noteq> Inl RangeError
   \<and> length overflow_psf < 16 + unat (0xFFFFFFF0 :: 32 word)"
  using CheckForValidPSF_overflow_accepted by simp

lemmas codec_eval = psf_header_def bytes_of_def WriteLE32_def le32_def file_of_def
  CheckForValidPSF_def ReadLE_bytes_def ReadLE_u32_def

section \<open>Properties of MakeNCSF and GetProgramSectionFromPSF\<close>

lemma length_WriteLE32: "length (WriteLE32 w) = 4"
  by (simp add: WriteLE32_def)

lemma length_psf_header: "length (psf_header v r c crc) = 16"
  by (simp add: psf_header_def bytes_of_def length_WriteLE32)

lemma psf_header_magic: "take 4 (psf_header v r c crc) = [0x50, 0x53, 0x46, v]"
  by (simp add: psf_header_def bytes_of_def)

lemma psf_header_r: "take 4 (drop 4 (psf_header v r c crc)) = WriteLE32 r"
  by (simp add: psf_header_def bytes_of_def length_WriteLE32)

lemma psf_header_c: "take 4 (drop 8 (psf_header v r c crc)) = WriteLE32 c"
  by (simp add: psf_header_def bytes_of_def length_WriteLE32)

lemma rd_magic:
  "ReadLE_bytes 4 \<lparr>data = psf_header v r c crc @ rest, pos = 0\<rparr>
     = Inr ([0x50, 0x53, 0x46, v], \<lparr>data = psf_header v r c crc @ rest, pos = 4\<rparr>)"
  by (simp add: ReadLE_bytes_def length_psf_header psf_header_magic)

lemma rd_r:
  "ReadLE_u32 \<lparr>data = psf_header v r c crc @ rest, pos = 4\<rparr>
     = Inr (r, \<lparr>data = psf_header v r c crc @ rest, pos = 8\<rparr>)"
  by (simp add: ReadLE_u32_def ReadLE_bytes_def length_psf_header psf_header_r le32_WriteLE32)

lemma rd_c:
  "ReadLE_u32 \<lparr>data = psf_header v r c crc @ rest, pos = 8\<rparr>
     = Inr (c, \<lparr>data = psf_header v r c crc @ rest, pos = 12\<rparr>)"
  by (simp add: ReadLE_u32_def ReadLE_bytes_def length_psf_header psf_header_c le32_WriteLE32)

lemma CheckForValidPSF_header:
  "CheckForValidPSF \<lparr>data = psf_header v r c crc @ rest, pos = p\<rparr> v' =
     (if sint v \<noteq> uint v' then Inl RuntimeError
      else if r \<noteq> 0 \<and> 16 + length rest < unat (r + 16) then Inl RangeError
      else if c \<noteq> 0 \<and> 16 + length rest < unat (r + c + 16) then Inl RangeError
      else Inr \<lparr>data = psf_header v r c crc @ rest, pos = 16 + unat r\<rparr>)"
  unfolding CheckForValidPSF_def
  by (simp add: rd_magic rd_r rd_c length_psf_header Let_def)


lemma MakeNCSF_layout:
  "MakeNCSF compress2 crc32 filename res prog tags =
     psf_header 0x25 (of_nat (length res))
        (of_nat (length (if prog = [] then [] else compress2 prog)))
        (if prog = [] \<or> compress2 prog = [] then 0 else crc32 (compress2 prog))
     @ (res @ (if prog = [] then [] else compress2 prog)
        @ (if tags \<noteq> [] then bytes_of ''[TAG]'' @ concat (map (\<lambda>t. t @ [0x0A]) tags) else []))"
  by (simp add: MakeNCSF_def psf_header_def Let_def)

lemma unat_of_nat_plus16_le: "unat (of_nat n + 16 :: 32 word) \<le> n + 16"
proof -
  have "unat (of_nat n + 16 :: 32 word) \<le> unat (of_nat n :: 32 word) + unat (16 :: 32 word)"
    by (simp add: unat_word_ariths)
  also have "\<dots> \<le> n + 16" by (simp add: unat_of_nat)
  finally show ?thesis .
qed

lemma unat_of_nat_plus_plus16_le: "unat (of_nat n + of_nat m + 16 :: 32 word) \<le> n + m + 16"
proof -
  have "of_nat n + of_nat m + (16 :: 32 word) = of_nat (n + m) + 16" by simp
  then show ?thesis using unat_of_nat_plus16_le[of "n + m"] by simp
qed

lemma MakeNCSF_valid:
  "CheckForValidPSF (file_of (MakeNCSF compress2 crc32 filename res prog tags)) 0x25 =
     Inr \<lparr>data = MakeNCSF compress2 crc32 filename res prog tags,
          pos = 16 + unat (of_nat (length res) :: 32 word)\<rparr>"
proof -
  let ?comp = "if prog = [] then [] else compress2 prog"
  let ?tb = "if tags \<noteq> [] then bytes_of ''[TAG]'' @ concat (map (\<lambda>t. t @ [0x0A]) tags) else []"
  have a: "\<not> 16 + length (res @ ?comp @ ?tb) < unat (of_nat (length res) + 16 :: 32 word)"
    using unat_of_nat_plus16_le[of "length res"] by simp
  have b: "\<not> 16 + length (res @ ?comp @ ?tb)
             < unat (of_nat (length res) + of_nat (length ?comp) + 16 :: 32 word)"
    using unat_of_nat_plus_plus16_le[of "length res" "length ?comp"] by simp
  show ?thesis
    unfolding file_of_def MakeNCSF_layout CheckForValidPSF_header
    using a b by simp
qed

lemma length_resize: "length (resize n xs) = n"
  by (simp add: resize_def)

lemma uncompress_header:
  "uncompress inflate (replicate n 0) n src = resize n (inflate src)"
  by (simp add: uncompress_def resize_def Let_def min_def)

lemma GetProgramSectionFromPSF_header:
  assumes "sint v = uint v'"
      and "\<not> (r \<noteq> 0 \<and> 16 + length rest < unat (r + 16))"
      and "\<not> (c \<noteq> 0 \<and> 16 + length rest < unat (r + c + 16))"
  shows "GetProgramSectionFromPSF inflate \<lparr>data = psf_header v r c crc @ rest, pos = p\<rparr> v' hs off add =
     (if c = 0 then Inr []
      else case ReadLE_bytes (unat c) \<lparr>data = psf_header v r c crc @ rest, pos = 16 + unat r\<rparr> of
             Inl e \<Rightarrow> Inl e
           | Inr (zs, f) \<Rightarrow>
               if unat hs < unat off + 4 then Inl OutOfBounds
               else Inr (uncompress inflate
                      (resize (unat (le32 (take 4 (drop (unat off) (resize (unat hs) (inflate zs)))))
                                 + (if add then unat hs else 0))
                         (resize (unat hs) (inflate zs)))
                      (unat (le32 (take 4 (drop (unat off) (resize (unat hs) (inflate zs)))))
                                 + (if add then unat hs else 0)) zs))"
proof -
  let ?d = "psf_header v r c crc @ rest"
  have valid: "CheckForValidPSF \<lparr>data = ?d, pos = p\<rparr> v' = Inr \<lparr>data = ?d, pos = 16 + unat r\<rparr>"
    unfolding CheckForValidPSF_header using assms by simp
  have skip: "(if r \<noteq> 0 then \<lparr>data = ?d, pos = 16 + unat r\<rparr> else \<lparr>data = ?d, pos = 16\<rparr>)
                = \<lparr>data = ?d, pos = 16 + unat r\<rparr>"
    by simp
  show ?thesis
    unfolding GetProgramSectionFromPSF_def valid
    by (auto simp: rd_r rd_c Let_def uncompress_header split: sum.splits prod.splits)
qed

text \<open>
  C4. MakeNCSF always writes the version byte 0x25, and GetProgramSectionFromPSF returns
  as many bytes as the size field inside the program header says. Built and read back
  with version byte 0x25, an empty program gives the empty result; a program that is not
  empty is returned exactly when its size field (the 32-bit little-endian value at
  \<open>programSizeOffset\<close> in the first \<open>programHeaderSize\<close> bytes, plus the header size if
  \<open>addHeaderSize\<close>) is its length, for a codec whose \<open>inflate\<close> inverts \<open>deflate\<close> and for
  sections shorter than \<open>2 ^ 32\<close> bytes.
\<close>

theorem MakeNCSF_roundtrip:
  assumes "prog \<noteq> [] \<longrightarrow>
             inflate (deflate prog) = prog \<and> deflate prog \<noteq> []
             \<and> length res < 2 ^ 32 \<and> length (deflate prog) < 2 ^ 32
             \<and> unat off + 4 \<le> unat hs
             \<and> unat (le32 (take 4 (drop (unat off) (resize (unat hs) prog))))
                 + (if add then unat hs else 0) = length prog"
  shows "GetProgramSectionFromPSF inflate
           (file_of (MakeNCSF deflate crc filename res prog tags)) 0x25 hs off add
         = Inr prog"
proof -
  let ?comp = "if prog = [] then [] else deflate prog"
  let ?tb = "if tags \<noteq> [] then bytes_of ''[TAG]'' @ concat (map (\<lambda>t. t @ [0x0A]) tags) else []"
  let ?r = "of_nat (length res) :: 32 word"
  let ?c = "of_nat (length ?comp) :: 32 word"
  have a: "\<not> (?r \<noteq> 0 \<and> 16 + length (res @ ?comp @ ?tb) < unat (?r + 16))"
    using unat_of_nat_plus16_le[of "length res"] by simp
  have b: "\<not> (?c \<noteq> 0 \<and> 16 + length (res @ ?comp @ ?tb) < unat (?r + ?c + 16))"
    using unat_of_nat_plus_plus16_le[of "length res" "length ?comp"] by simp
  have v: "sint (0x25 :: byte) = uint (0x25 :: byte)" by simp
  note step = GetProgramSectionFromPSF_header[OF v a b]
  show ?thesis
  proof (cases "prog = []")
    case True
    then show ?thesis
      unfolding file_of_def MakeNCSF_layout step by simp
  next
    case False
    with assms have inf: "inflate (deflate prog) = prog" and ne: "deflate prog \<noteq> []"
      and lr: "length res < 2 ^ 32" and lc: "length (deflate prog) < 2 ^ 32"
      and off: "unat off + 4 \<le> unat hs"
      and sz: "unat (le32 (take 4 (drop (unat off) (resize (unat hs) prog))))
                 + (if add then unat hs else 0) = length prog"
      by simp_all
    have ur: "unat ?r = length res" using lr by (simp add: unat_of_nat)
    have uc: "unat (of_nat (length (deflate prog)) :: 32 word) = length (deflate prog)"
      using lc by (simp add: unat_of_nat)
    have c0: "(of_nat (length (deflate prog)) :: 32 word) \<noteq> 0"
      using uc ne by (metis length_0_conv unat_0)
    have rd: "ReadLE_bytes (length (deflate prog))
               \<lparr>data = psf_header 0x25 ?r (of_nat (length (deflate prog))) (crc (deflate prog))
                        @ (res @ deflate prog @ ?tb), pos = 16 + length res\<rparr>
              = Inr (deflate prog,
                 \<lparr>data = psf_header 0x25 ?r (of_nat (length (deflate prog))) (crc (deflate prog))
                        @ (res @ deflate prog @ ?tb), pos = 16 + length res + length (deflate prog)\<rparr>)"
      by (simp add: ReadLE_bytes_def length_psf_header)
    show ?thesis
      unfolding file_of_def MakeNCSF_layout step
      using False ne c0 off
      by (simp add: ur uc rd inf sz uncompress_def length_resize Let_def)
  qed
qed


theorem MakeNCSF_roundtrip_witness:
  "GetProgramSectionFromPSF stored_inflate
     (file_of (MakeNCSF stored_compress2 zero_crc32 [] [1, 2] [4, 0, 0, 0] [bytes_of ''a=b'']))
     0x25 4 0 False = Inr [4, 0, 0, 0]
   \<and> GetProgramSectionFromPSF stored_inflate
     (file_of (MakeNCSF stored_compress2 zero_crc32 [] [1, 2] [] [bytes_of ''a=b'']))
     0x25 4 0 False = Inr []"
proof -
  have h: "[4, 0, 0, 0] \<noteq> ([] :: byte list) \<longrightarrow>
             stored_inflate (stored_compress2 [4, 0, 0, 0]) = [4, 0, 0, 0]
             \<and> stored_compress2 [4, 0, 0, 0] \<noteq> []
             \<and> length ([1, 2] :: byte list) < 2 ^ 32
             \<and> length (stored_compress2 [4, 0, 0, 0]) < 2 ^ 32
             \<and> unat (0 :: 32 word) + 4 \<le> unat (4 :: 32 word)
             \<and> unat (le32 (take 4 (drop (unat (0 :: 32 word))
                       (resize (unat (4 :: 32 word)) [4, 0, 0, 0]))))
                 + (if False then unat (4 :: 32 word) else 0) = length ([4, 0, 0, 0] :: byte list)"
    by (simp add: stored_inflate_def stored_compress2_def resize_def le32_def)
  have e: "([] :: byte list) \<noteq> [] \<longrightarrow>
             stored_inflate (stored_compress2 []) = []
             \<and> stored_compress2 [] \<noteq> []
             \<and> length ([1, 2] :: byte list) < 2 ^ 32
             \<and> length (stored_compress2 []) < 2 ^ 32
             \<and> unat (0 :: 32 word) + 4 \<le> unat (4 :: 32 word)
             \<and> unat (le32 (take 4 (drop (unat (0 :: 32 word))
                       (resize (unat (4 :: 32 word)) []))))
                 + (if False then unat (4 :: 32 word) else 0) = length ([] :: byte list)"
    by simp
  show ?thesis
    using
      MakeNCSF_roundtrip [where prog = "[4, 0, 0, 0]" and inflate = stored_inflate
        and deflate = stored_compress2 and res = "[1, 2]" and off = 0 and hs = 4
        and add = False and crc = zero_crc32 and filename = "[]"
        and tags = "[bytes_of ''a=b'']", OF h]
      MakeNCSF_roundtrip [where prog = "[]" and inflate = stored_inflate
        and deflate = stored_compress2 and res = "[1, 2]" and off = 0 and hs = 4
        and add = False and crc = zero_crc32 and filename = "[]"
        and tags = "[bytes_of ''a=b'']", OF e]
    by simp
qed

text \<open>
  The claim as first stated fails twice: read with another version byte (0x26) the file
  built from an empty program is a format error, and the one-byte program \<open>[2]\<close>, whose
  size field reads 2, comes back as two bytes.
\<close>

theorem MakeNCSF_roundtrip_counterexample:
  "GetProgramSectionFromPSF stored_inflate
     (file_of (MakeNCSF stored_compress2 zero_crc32 [] [] [] [])) 0x26 4 0 False
     = Inl RuntimeError
   \<and> GetProgramSectionFromPSF stored_inflate
     (file_of (MakeNCSF stored_compress2 zero_crc32 [] [] [2] [])) 0x25 4 0 False
     = Inr [2, 0]
   \<and> stored_inflate (stored_compress2 [2]) = [2]"
  by (simp add: MakeNCSF_def codec_eval GetProgramSectionFromPSF_def stored_inflate_def
      stored_compress2_def zero_crc32_def uncompress_def resize_def)

section \<open>Properties of GetTagsFromPSF\<close>

lemmas tags_eval = tag_file_def GetTagsFromPSF_def GetNextOffset_def
  TrimWhitespace_def LeftTrimWhitespace_def RightTrimWhitespace_def isWhitespace_def
  TagList_Exists_def TagList_Get_def

lemma CheckForValidPSF_data:
  "CheckForValidPSF file v = Inr file' \<Longrightarrow> data file' = data file"
  by (auto simp: CheckForValidPSF_def ReadLE_bytes_def ReadLE_u32_def Let_def
      split: if_splits sum.splits prod.splits)

text \<open>The search returns the first offset at which the pattern occurs.\<close>

lemma search_first:
  "take (length pat) (drop k xs) = pat \<Longrightarrow> pat \<noteq> [] \<Longrightarrow>
   \<forall>j<k. take (length pat) (drop j xs) \<noteq> pat \<Longrightarrow> search pat xs n = Some (n + k)"
proof (induction xs arbitrary: k n)
  case Nil
  then show ?case by simp
next
  case (Cons x xs)
  show ?case
  proof (cases k)
    case 0
    with Cons.prems show ?thesis by simp
  next
    case (Suc k')
    from Cons.prems(3) Suc have "take (length pat) (drop 0 (x # xs)) \<noteq> pat" by blast
    then have ne: "take (length pat) (x # xs) \<noteq> pat" by simp
    have occ: "take (length pat) (drop k' xs) = pat" using Cons.prems(1) Suc by simp
    have first: "\<forall>j<k'. take (length pat) (drop j xs) \<noteq> pat"
    proof (intro allI impI)
      fix j assume "j < k'"
      then have "Suc j < k" using Suc by simp
      with Cons.prems(3) have "take (length pat) (drop (Suc j) (x # xs)) \<noteq> pat" by blast
      then show "take (length pat) (drop j xs) \<noteq> pat" by simp
    qed
    from Cons.IH[OF occ Cons.prems(2) first, of "Suc n"] ne Suc show ?thesis by simp
  qed
qed

lemma GetTagsFromPSF_at_first_marker:
  assumes valid: "CheckForValidPSF file v = Inr file'"
    and occ: "take 5 (drop k (data file)) = bytes_of ''[TAG]''"
    and first: "\<forall>j<k. take 5 (drop j (data file)) \<noteq> bytes_of ''[TAG]''"
  shows "GetTagsFromPSF file v = Inr (GetTagsFromPSF_loop (drop (k + 5) (data file)) [] [] True [])"
proof -
  have d: "data file' = data file" using valid by (rule CheckForValidPSF_data)
  have len: "length (bytes_of ''[TAG]'') = 5" by (simp add: bytes_of_def)
  have ne: "bytes_of ''[TAG]'' \<noteq> []" by (simp add: bytes_of_def)
  have "search (bytes_of ''[TAG]'') (data file) 0 = Some (0 + k)"
    by (rule search_first) (simp_all add: len occ first ne)
  then have "GetNextOffset file' 0 (bytes_of ''[TAG]'') = Some k"
    by (simp add: GetNextOffset_def d)
  with valid d show ?thesis by (simp add: GetTagsFromPSF_def)
qed

lemma all_less_upt: "(\<forall>j<n. P j) \<longleftrightarrow> list_all P [0..<n]"
  by (auto simp: list_all_iff)

lemma upt_16: "[0..<16] = [0, 1, 2, 3, 4, 5, 6, 7, 8, 9, 10, 11, 12, 13, 14, 15]"
  by (simp add: upt_rec)

lemma tag_file_valid:
  "CheckForValidPSF (file_of (tag_file rs)) 0x25 = Inr \<lparr>data = tag_file rs, pos = 16\<rparr>"
  by (simp add: codec_eval tag_file_def)

lemma tag_file_marker: "take 5 (drop 16 (data (file_of (tag_file rs)))) = bytes_of ''[TAG]''"
  by (simp add: codec_eval tag_file_def)

lemma tag_file_first:
  "\<forall>j<16. take 5 (drop j (data (file_of (tag_file rs)))) \<noteq> bytes_of ''[TAG]''"
  unfolding all_less_upt upt_16 by (simp add: codec_eval tag_file_def)

lemma tag_file_records: "drop (16 + 5) (data (file_of (tag_file rs))) = rs"
  by (simp add: codec_eval tag_file_def)

text \<open>
  C2. A record is dropped when its name or its value is empty before trimming (line 203);
  the trimming comes after the test. The record \<open>" =1"\<close>, whose name is one space, is
  therefore stored under the empty name, and the record \<open>"A= "\<close> stores the empty value
  under \<open>A\<close>; neither is dropped.
\<close>

theorem GetTagsFromPSF_blank_name_kept:
  "GetTagsFromPSF (file_of (tag_file (bytes_of '' =1'' @ [0x0A]))) 0x25
     = Inr [([], bytes_of ''1'')]
   \<and> TrimWhitespace (bytes_of '' '') = []
   \<and> GetTagsFromPSF (file_of (tag_file (bytes_of ''A= '' @ [0x0A]))) 0x25
     = Inr [(bytes_of ''A'', [])]"
  by (simp add: codec_eval tags_eval)

theorem GetTagsFromPSF_blank_name_kept_witness:
  "GetTagsFromPSF (file_of (tag_file (bytes_of '' =1'' @ [0x0A]))) 0x25 \<noteq> Inr []
   \<and> GetTagsFromPSF (file_of (tag_file (bytes_of ''A= '' @ [0x0A]))) 0x25 \<noteq> Inr []"
  using GetTagsFromPSF_blank_name_kept by simp

text \<open>
  C6. On a valid buffer whose first \<open>"[TAG]"\<close> marker is followed by exactly the records
  \<open>"A=1"\<close> and \<open>"A=2"\<close>, each ended by the byte 0x0A, GetTagsFromPSF returns the
  dictionary with the single key \<open>A\<close>, mapped to \<open>"1\n2"\<close>.
\<close>

theorem GetTagsFromPSF_merge_append:
  assumes "CheckForValidPSF file v = Inr file'"
    and "take 5 (drop k (data file)) = bytes_of ''[TAG]''"
    and "\<forall>j<k. take 5 (drop j (data file)) \<noteq> bytes_of ''[TAG]''"
    and "drop (k + 5) (data file) = bytes_of ''A=1'' @ [0x0A] @ bytes_of ''A=2'' @ [0x0A]"
  shows "GetTagsFromPSF file v = Inr [(bytes_of ''A'', bytes_of ''1'' @ [0x0A] @ bytes_of ''2'')]"
proof -
  have "GetTagsFromPSF file v
          = Inr (GetTagsFromPSF_loop (drop (k + 5) (data file)) [] [] True [])"
    using assms(1-3) by (rule GetTagsFromPSF_at_first_marker)
  also have "GetTagsFromPSF_loop (drop (k + 5) (data file)) [] [] True []
          = [(bytes_of ''A'', bytes_of ''1'' @ [0x0A] @ bytes_of ''2'')]"
    unfolding assms(4) by (simp add: bytes_of_def tags_eval)
  finally show ?thesis .
qed

theorem GetTagsFromPSF_merge_append_witness:
  "GetTagsFromPSF (file_of (tag_file (bytes_of ''A=1'' @ [0x0A] @ bytes_of ''A=2'' @ [0x0A]))) 0x25
     = Inr [(bytes_of ''A'', bytes_of ''1'' @ [0x0A] @ bytes_of ''2'')]"
  using GetTagsFromPSF_merge_append [OF tag_file_valid tag_file_marker tag_file_first tag_file_records]
  by simp

text \<open>
  C9. The marker is searched from offset 0 of the whole buffer: wherever the first
  occurrence of the five bytes \<open>"[TAG]"\<close> lies in a valid file, at any offset \<open>k\<close>,
  everything after it is parsed as tag records. In the witness the marker lies in the
  reserved section, and the genuine tag block is read as part of a record.
\<close>

theorem GetTagsFromPSF_first_marker_anywhere:
  assumes "CheckForValidPSF file v = Inr file'"
    and "take 5 (drop k (data file)) = bytes_of ''[TAG]''"
    and "\<forall>j<k. take 5 (drop j (data file)) \<noteq> bytes_of ''[TAG]''"
  shows "GetTagsFromPSF file v = Inr (GetTagsFromPSF_loop (drop (k + 5) (data file)) [] [] True [])"
  using assms by (rule GetTagsFromPSF_at_first_marker)

lemma marker_in_reserved_bytes:
  "marker_in_reserved
     = psf_header 0x25 9 0 0 @ bytes_of ''[TAG]x=y'' @ [0x0A] @ bytes_of ''[TAG]a=b'' @ [0x0A]"
  by (simp add: marker_in_reserved_def MakeNCSF_def psf_header_def bytes_of_def)

theorem GetTagsFromPSF_first_marker_anywhere_witness:
  "take 9 (drop 16 marker_in_reserved) = bytes_of ''[TAG]x=y'' @ [0x0A]
   \<and> drop (16 + 9) marker_in_reserved = bytes_of ''[TAG]a=b'' @ [0x0A]
   \<and> GetTagsFromPSF (file_of marker_in_reserved) 0x25
       = Inr [(bytes_of ''x'', bytes_of ''y''), (bytes_of ''[TAG]a'', bytes_of ''b'')]"
proof -
  have valid: "CheckForValidPSF (file_of marker_in_reserved) 0x25
                 = Inr \<lparr>data = marker_in_reserved, pos = 25\<rparr>"
    by (simp add: marker_in_reserved_bytes codec_eval)
  have occ: "take 5 (drop 16 (data (file_of marker_in_reserved))) = bytes_of ''[TAG]''"
    by (simp add: marker_in_reserved_bytes codec_eval)
  have first: "\<forall>j<16. take 5 (drop j (data (file_of marker_in_reserved))) \<noteq> bytes_of ''[TAG]''"
    unfolding all_less_upt upt_16 by (simp add: marker_in_reserved_bytes codec_eval)
  have rest: "GetTagsFromPSF_loop (drop (16 + 5) (data (file_of marker_in_reserved))) [] [] True []
                = [(bytes_of ''x'', bytes_of ''y''), (bytes_of ''[TAG]a'', bytes_of ''b'')]"
    by (simp add: marker_in_reserved_bytes codec_eval tags_eval)
  have reserved: "take 9 (drop 16 marker_in_reserved) = bytes_of ''[TAG]x=y'' @ [0x0A]"
    by (simp add: marker_in_reserved_bytes codec_eval)
  have block: "drop (16 + 9) marker_in_reserved = bytes_of ''[TAG]a=b'' @ [0x0A]"
    by (simp add: marker_in_reserved_bytes codec_eval)
  show ?thesis
    using GetTagsFromPSF_first_marker_anywhere [OF valid occ first] rest reserved block
    by simp
qed

subsection \<open>The separator\<close>

lemma set_TrimWhitespace: "set (TrimWhitespace s) \<subseteq> set s"
proof -
  have "set (dropWhile isWhitespace (rev (dropWhile isWhitespace (rev s))))
          \<subseteq> set (rev (dropWhile isWhitespace (rev s)))"
    by (meson set_dropWhileD subsetI)
  also have "\<dots> \<subseteq> set s"
    using set_dropWhileD[of _ isWhitespace "rev s"] by auto
  finally show ?thesis
    by (simp add: TrimWhitespace_def LeftTrimWhitespace_def RightTrimWhitespace_def)
qed

lemma set_TagList_Set: "set (TagList_Set tags name v) \<subseteq> insert (name, v) (set tags)"
  by (induction tags name v rule: TagList_Set.induct) auto

lemma no_eq_Set:
  assumes "\<forall>p \<in> set tags. 0x3D \<notin> set (fst p) \<and> 0x3D \<notin> set (snd p)"
    and "0x3D \<notin> set name" and "0x3D \<notin> set v"
  shows "\<forall>p \<in> set (TagList_Set tags name v). 0x3D \<notin> set (fst p) \<and> 0x3D \<notin> set (snd p)"
  using set_TagList_Set[of tags name v] assms by auto

lemma no_eq_Get:
  assumes "\<forall>p \<in> set tags. 0x3D \<notin> set (fst p) \<and> 0x3D \<notin> set (snd p)"
  shows "0x3D \<notin> set (TagList_Get tags name)"
proof (cases "map_of tags name")
  case None
  then show ?thesis by (simp add: TagList_Get_def)
next
  case (Some v)
  then have "(name, v) \<in> set tags" by (rule map_of_SomeD)
  with assms have "0x3D \<notin> set v" by auto
  with Some show ?thesis by (simp add: TagList_Get_def)
qed

lemma GetTagsFromPSF_loop_no_eq:
  "\<forall>p \<in> set tags. 0x3D \<notin> set (fst p) \<and> 0x3D \<notin> set (snd p) \<Longrightarrow>
   0x3D \<notin> set name \<Longrightarrow> 0x3D \<notin> set val \<Longrightarrow>
   \<forall>p \<in> set (GetTagsFromPSF_loop bs name val onName tags).
      0x3D \<notin> set (fst p) \<and> 0x3D \<notin> set (snd p)"
proof (induction bs name val onName tags rule: GetTagsFromPSF_loop.induct)
  case (1 name val onName tags)
  then show ?case by simp
next
  case (2 ch bs name val onName tags)
  have tn: "0x3D \<notin> set (TrimWhitespace name)" using "2.prems"(2) set_TrimWhitespace by blast
  have tv: "0x3D \<notin> set (TrimWhitespace val)" using "2.prems"(3) set_TrimWhitespace by blast
  show ?case
  proof (cases "ch = 0x0A")
    case True
    have "\<forall>p \<in> set (if name \<noteq> [] \<and> val \<noteq> [] then
             (let name' = TrimWhitespace name; val' = TrimWhitespace val in
              if TagList_Exists tags name'
              then TagList_Set tags name' (TagList_Get tags name' @ [0x0A] @ val')
              else TagList_Set tags name' val')
           else tags). 0x3D \<notin> set (fst p) \<and> 0x3D \<notin> set (snd p)"
    proof (cases "name \<noteq> [] \<and> val \<noteq> []")
      case False
      then show ?thesis using "2.prems"(1) by auto
    next
      case ne: True
      show ?thesis
      proof (cases "TagList_Exists tags (TrimWhitespace name)")
        case True
        have "0x3D \<notin> set (TagList_Get tags (TrimWhitespace name) @ [0x0A] @ TrimWhitespace val)"
          using no_eq_Get[OF "2.prems"(1)] tv by simp
        from no_eq_Set[OF "2.prems"(1) tn this] ne True show ?thesis by (simp add: Let_def)
      next
        case False
        from no_eq_Set[OF "2.prems"(1) tn tv] ne False show ?thesis by (simp add: Let_def)
      qed
    qed
    from "2.IH"(1)[OF True this] True show ?thesis by simp
  next
    case False
    then show ?thesis using 2 by auto
  qed
qed

text \<open>
  C10. Every \<open>'='\<close> (0x3D) of a record switches the loop to the value and is appended
  to neither string, so no name and no value of the returned dictionary contains one.
  The line \<open>"a=b=c"\<close> written by MakeNCSF is read back as name \<open>"a"\<close> with value
  \<open>"bc"\<close>, not \<open>"b=c"\<close>.
\<close>

theorem GetTagsFromPSF_equals_never_stored:
  "(GetTagsFromPSF file v = Inr tags \<longrightarrow>
      (\<forall>p \<in> set tags. 0x3D \<notin> set (fst p) \<and> 0x3D \<notin> set (snd p)))
   \<and> GetTagsFromPSF (file_of (MakeNCSF compress2 crc32 filename [] [] [bytes_of ''a=b=c''])) 0x25
       = Inr [(bytes_of ''a'', bytes_of ''bc'')]"
proof
  show "GetTagsFromPSF file v = Inr tags \<longrightarrow>
      (\<forall>p \<in> set tags. 0x3D \<notin> set (fst p) \<and> 0x3D \<notin> set (snd p))"
  proof
    assume r: "GetTagsFromPSF file v = Inr tags"
    have loop: "\<forall>p \<in> set (GetTagsFromPSF_loop bs [] [] True []).
                  0x3D \<notin> set (fst p) \<and> 0x3D \<notin> set (snd p)" for bs
      by (rule GetTagsFromPSF_loop_no_eq) simp_all
    from r consider "tags = []" | bs where "tags = GetTagsFromPSF_loop bs [] [] True []"
      by (auto simp: GetTagsFromPSF_def split: sum.splits option.splits)
    then show "\<forall>p \<in> set tags. 0x3D \<notin> set (fst p) \<and> 0x3D \<notin> set (snd p)"
    proof cases
      case 1
      then show ?thesis by simp
    next
      case 2
      then show ?thesis using loop by simp
    qed
  qed
next
  show "GetTagsFromPSF (file_of (MakeNCSF compress2 crc32 filename [] [] [bytes_of ''a=b=c''])) 0x25
       = Inr [(bytes_of ''a'', bytes_of ''bc'')]"
    by (simp add: MakeNCSF_def codec_eval tags_eval)
qed

theorem GetTagsFromPSF_equals_never_stored_witness:
  "GetTagsFromPSF (file_of (tag_file (bytes_of ''a=b=c'' @ [0x0A]))) 0x25
     = Inr [(bytes_of ''a'', bytes_of ''bc'')]
   \<and> 0x3D \<in> set (bytes_of ''b=c'')
   \<and> 0x3D \<notin> set (bytes_of ''bc'')"
proof -
  have r: "GetTagsFromPSF (file_of (tag_file (bytes_of ''a=b=c'' @ [0x0A]))) 0x25
             = Inr [(bytes_of ''a'', bytes_of ''bc'')]"
    by (simp add: codec_eval tags_eval)
  have "0x3D \<in> set (bytes_of ''b=c'')" by (simp add: bytes_of_def)
  with r GetTagsFromPSF_equals_never_stored
         [of "file_of (tag_file (bytes_of ''a=b=c'' @ [0x0A]))" "0x25"
             "[(bytes_of ''a'', bytes_of ''bc'')]" stored_compress2 zero_crc32 "[]"]
  show ?thesis by simp
qed

section \<open>Properties of SSEQ::Read\<close>

lemma ReadLE_bytes_data: "ReadLE_bytes n f = Inr (bs, f') \<Longrightarrow> data f' = data f \<and> pos f' = pos f + n \<and> bs = take n (drop (pos f) (data f)) \<and> pos f + n \<le> length (data f)"
  by (auto simp: ReadLE_bytes_def split: if_splits)

lemma ReadLE_u32_data: "ReadLE_u32 f = Inr (w, f') \<Longrightarrow> data f' = data f \<and> pos f' = pos f + 4 \<and> w = le32 (take 4 (drop (pos f) (data f)))"
  by (auto simp: ReadLE_u32_def split: sum.splits dest!: ReadLE_bytes_data)

lemma ReadLE_u16_data: "ReadLE_u16 f = Inr (w, f') \<Longrightarrow> data f' = data f \<and> pos f' = pos f + 2"
  by (auto simp: ReadLE_u16_def split: sum.splits dest!: ReadLE_bytes_data)

lemma NDSStdHeader_Read_data:
  "NDSStdHeader_Read f = Inr (h, f') \<Longrightarrow> data f' = data f \<and> pos f' = pos f + 16"
  unfolding NDSStdHeader_Read_def
  by (auto split: sum.splits dest!: ReadLE_bytes_data ReadLE_u32_data ReadLE_u16_data)

text \<open>
  C8. SSEQ::Read is a \<open>std::runtime_error\<close> when the tag of the standard header is not
  \<open>"SSEQ"\<close>, and when the header is accepted and the four bytes after it are not
  \<open>"DATA"\<close>. When it succeeds, the header was accepted, the data tag is \<open>"DATA"\<close>, and
  the payload is the \<open>size - 12\<close> bytes (32-bit arithmetic, the plain difference for a
  declared size of at least 12) found at the declared data offset from the start of the
  sequence; nothing else of the object changes.
\<close>

theorem SSEQ_Read_structure:
  "(NDSStdHeader_Read file = Inr (header, file1) \<and> \<not> VerifyHeader (hdr_type header) ''SSEQ''
      \<longrightarrow> SSEQ_Read this file = Inl RuntimeError)
   \<and> (NDSStdHeader_Read file = Inr (header, file1)
        \<and> NDSStdHeader_Verify header ''SSEQ'' 0x0100FEFF
        \<and> ReadLE_bytes 4 file1 = Inr (dataType, file2) \<and> dataType \<noteq> bytes_of ''DATA''
      \<longrightarrow> SSEQ_Read this file = Inl RuntimeError)
   \<and> (SSEQ_Read this file = Inr (this', file')
      \<longrightarrow> (\<exists>hdr. NDSStdHeader_Read file = Inr (hdr, file\<lparr>pos := pos file + 16\<rparr>)
                \<and> VerifyHeader (hdr_type hdr) ''SSEQ'')
          \<and> take 4 (drop (pos file + 16) (data file)) = bytes_of ''DATA''
          \<and> (let dataSize = le32 (take 4 (drop (pos file + 20) (data file)));
                  dataOffset = le32 (take 4 (drop (pos file + 24) (data file)))
              in this' = this\<lparr>sseq_data :=
                           take (unat (dataSize - 12))
                             (drop (unat (of_nat (pos file) + dataOffset)) (data file))\<rparr>
                 \<and> length (sseq_data this') = unat (dataSize - 12)
                 \<and> (12 \<le> dataSize \<longrightarrow> length (sseq_data this') = unat dataSize - 12)))"
proof -
  have a: "NDSStdHeader_Read file = Inr (header, file1) \<and> \<not> VerifyHeader (hdr_type header) ''SSEQ''
      \<longrightarrow> SSEQ_Read this file = Inl RuntimeError"
    by (simp add: SSEQ_Read_def NDSStdHeader_Verify_def)
  have b: "NDSStdHeader_Read file = Inr (header, file1)
        \<and> NDSStdHeader_Verify header ''SSEQ'' 0x0100FEFF
        \<and> ReadLE_bytes 4 file1 = Inr (dataType, file2) \<and> dataType \<noteq> bytes_of ''DATA''
      \<longrightarrow> SSEQ_Read this file = Inl RuntimeError"
    by (simp add: SSEQ_Read_def VerifyHeader_def)
  have c: "(\<exists>hdr. NDSStdHeader_Read file = Inr (hdr, file\<lparr>pos := pos file + 16\<rparr>)
                \<and> VerifyHeader (hdr_type hdr) ''SSEQ'')
          \<and> take 4 (drop (pos file + 16) (data file)) = bytes_of ''DATA''
          \<and> (let dataSize = le32 (take 4 (drop (pos file + 20) (data file)));
                  dataOffset = le32 (take 4 (drop (pos file + 24) (data file)))
              in this' = this\<lparr>sseq_data :=
                           take (unat (dataSize - 12))
                             (drop (unat (of_nat (pos file) + dataOffset)) (data file))\<rparr>
                 \<and> length (sseq_data this') = unat (dataSize - 12)
                 \<and> (12 \<le> dataSize \<longrightarrow> length (sseq_data this') = unat dataSize - 12))"
    if ok: "SSEQ_Read this file = Inr (this', file')"
  proof -
  from ok obtain hdr f1 where h: "NDSStdHeader_Read file = Inr (hdr, f1)"
    by (auto simp: SSEQ_Read_def Let_def split: sum.splits)
  from NDSStdHeader_Read_data[OF h] have f1: "f1 = file\<lparr>pos := pos file + 16\<rparr>"
    by (cases f1, cases "file") simp
  from ok h have v: "NDSStdHeader_Verify hdr ''SSEQ'' 0x0100FEFF"
    by (auto simp: SSEQ_Read_def Let_def split: if_splits)
  from ok h v obtain dt f2 where r1: "ReadLE_bytes 4 f1 = Inr (dt, f2)"
    by (auto simp: SSEQ_Read_def Let_def split: sum.splits)
  from ok h v r1 have dv: "VerifyHeader dt ''DATA''"
    by (auto simp: SSEQ_Read_def Let_def split: if_splits)
  from ok h v r1 dv obtain ds f3 where r2: "ReadLE_u32 f2 = Inr (ds, f3)"
    by (auto simp: SSEQ_Read_def Let_def split: sum.splits)
  from ok h v r1 dv r2 obtain dof f4 where r3: "ReadLE_u32 f3 = Inr (dof, f4)"
    by (auto simp: SSEQ_Read_def Let_def split: sum.splits)
  from ok h v r1 dv r2 r3 obtain bs f6 where
    r4: "ReadLE_bytes (unat (ds - 12)) (f4\<lparr>pos := unat (of_nat (pos file) + dof)\<rparr>) = Inr (bs, f6)"
    and res: "this' = this\<lparr>sseq_data := bs\<rparr>"
    by (auto simp: SSEQ_Read_def Let_def split: sum.splits)
  note d1 = ReadLE_bytes_data[OF r1] and d2 = ReadLE_u32_data[OF r2] and d3 = ReadLE_u32_data[OF r3]
    and d4 = ReadLE_bytes_data[OF r4]
  have df: "data f4 = data file" using d1 d2 d3 f1 by simp
  have dt: "take 4 (drop (pos file + 16) (data file)) = bytes_of ''DATA''"
    using d1 dv f1 by (simp add: VerifyHeader_def)
  have ds: "ds = le32 (take 4 (drop (pos file + 20) (data file)))"
    using d1 d2 f1 by (simp add: add.commute)
  have dof: "dof = le32 (take 4 (drop (pos file + 24) (data file)))"
    using d1 d2 d3 f1 by (simp add: add.commute)
  have bs: "bs = take (unat (ds - 12)) (drop (unat (of_nat (pos file) + dof)) (data file))"
    using d4 df by simp
  have len: "length bs = unat (ds - 12)"
    using d4 df bs by (auto simp: min_def)
  have sub: "12 \<le> ds \<Longrightarrow> unat (ds - 12) = unat ds - 12"
    by (simp add: unat_sub)
  show ?thesis
    using h f1 v dt res bs len sub ds dof
    by (auto simp: Let_def NDSStdHeader_Verify_def)
  qed
  from a b c show ?thesis by blast
qed

lemmas sseq_eval = sseq_file_def file_of_def bytes_of_def WriteLE32_def le32_def le16_def
  ReadLE_bytes_def ReadLE_u32_def ReadLE_u16_def NDSStdHeader_Read_def NDSStdHeader_Verify_def
  VerifyHeader_def

theorem SSEQ_Read_structure_witness:
  "SSEQ_Read example_sseq (file_of (sseq_file ''SSEX'' ''DATA'' 15 28 [1, 2, 3])) = Inl RuntimeError
   \<and> SSEQ_Read example_sseq (file_of (sseq_file ''SSEQ'' ''DATB'' 15 28 [1, 2, 3])) = Inl RuntimeError
   \<and> SSEQ_Read example_sseq (file_of (sseq_file ''SSEQ'' ''DATA'' 15 28 [1, 2, 3]))
       = Inr (example_sseq\<lparr>sseq_data := [1, 2, 3]\<rparr>,
              \<lparr>data = sseq_file ''SSEQ'' ''DATA'' 15 28 [1, 2, 3], pos = 31\<rparr>)
   \<and> length (sseq_data (example_sseq\<lparr>sseq_data := [1, 2, 3]\<rparr>)) = unat (15 - 12 :: 32 word)"
proof -
  let ?bad1 = "file_of (sseq_file ''SSEX'' ''DATA'' 15 28 [1, 2, 3])"
  let ?bad2 = "file_of (sseq_file ''SSEQ'' ''DATB'' 15 28 [1, 2, 3])"
  let ?good = "file_of (sseq_file ''SSEQ'' ''DATA'' 15 28 [1, 2, 3])"
  have h1: "NDSStdHeader_Read ?bad1
              = Inr (\<lparr>hdr_type = bytes_of ''SSEX'', hdr_magic = 0x0100FEFF, hdr_fileSize = 31,
                      hdr_structSize = 16, hdr_blocks = 1\<rparr>, ?bad1\<lparr>pos := 16\<rparr>)
            \<and> \<not> VerifyHeader (hdr_type \<lparr>hdr_type = bytes_of ''SSEX'', hdr_magic = 0x0100FEFF,
                     hdr_fileSize = 31, hdr_structSize = 16, hdr_blocks = 1\<rparr>) ''SSEQ''"
    by (simp add: sseq_eval)
  have h2: "NDSStdHeader_Read ?bad2
              = Inr (\<lparr>hdr_type = bytes_of ''SSEQ'', hdr_magic = 0x0100FEFF, hdr_fileSize = 31,
                      hdr_structSize = 16, hdr_blocks = 1\<rparr>, ?bad2\<lparr>pos := 16\<rparr>)
            \<and> NDSStdHeader_Verify \<lparr>hdr_type = bytes_of ''SSEQ'', hdr_magic = 0x0100FEFF,
                     hdr_fileSize = 31, hdr_structSize = 16, hdr_blocks = 1\<rparr> ''SSEQ'' 0x0100FEFF
            \<and> ReadLE_bytes 4 (?bad2\<lparr>pos := 16\<rparr>) = Inr (bytes_of ''DATB'', ?bad2\<lparr>pos := 20\<rparr>)
            \<and> bytes_of ''DATB'' \<noteq> bytes_of ''DATA''"
    by (simp add: sseq_eval)
  have h3: "SSEQ_Read example_sseq ?good
              = Inr (example_sseq\<lparr>sseq_data := [1, 2, 3]\<rparr>,
                     \<lparr>data = sseq_file ''SSEQ'' ''DATA'' 15 28 [1, 2, 3], pos = 31\<rparr>)"
    by (simp add: SSEQ_Read_def sseq_eval)
  from SSEQ_Read_structure [of ?bad1 _ "?bad1\<lparr>pos := 16\<rparr>" example_sseq] h1
  have r1: "SSEQ_Read example_sseq ?bad1 = Inl RuntimeError" by blast
  from SSEQ_Read_structure [of ?bad2 _ "?bad2\<lparr>pos := 16\<rparr>" example_sseq "bytes_of ''DATB''"
         "?bad2\<lparr>pos := 20\<rparr>"] h2
  have r2: "SSEQ_Read example_sseq ?bad2 = Inl RuntimeError" by blast
  note c3 = SSEQ_Read_structure [THEN conjunct2, THEN conjunct2, THEN mp, OF h3]
  have r3: "length (sseq_data (example_sseq\<lparr>sseq_data := [1, 2, 3]\<rparr>))
              = unat (le32 (take 4 (drop (pos ?good + 20) (data ?good))) - 12)"
    by (rule c3 [unfolded Let_def, THEN conjunct2, THEN conjunct2, THEN conjunct2, THEN conjunct1])
  have "le32 (take 4 (drop (pos ?good + 20) (data ?good))) = 15"
    by (simp add: sseq_eval)
  with r1 r2 h3 r3 show ?thesis by simp
qed

section \<open>Properties of GetTime\<close>


lemma static_cast_int_minus_one: "static_cast_int (- 1) = - 1"
  using ceiling_of_int[of "- 1", where ?'a = real] by (simp add: static_cast_int_def)

lemma GetTime_poll_all:
  "i \<le> n \<Longrightarrow> (\<forall>j. i \<le> j \<and> j < n \<longrightarrow> d j) \<Longrightarrow> GetTime_poll d n i = n"
proof (induction d n i rule: GetTime_poll.induct)
  case (1 d n i)
  show ?case
  proof (cases "i < n")
    case True
    with "1.prems" have di: "d i" by simp
    have "GetTime_poll d n (Suc i) = n"
      using "1.IH"[OF True di] True "1.prems" by simp
    with True di show ?thesis by (subst GetTime_poll.simps) simp
  next
    case False
    with "1.prems" show ?thesis by (subst GetTime_poll.simps) simp
  qed
qed

lemma GetTime_poll_stop:
  "i \<le> k \<Longrightarrow> k < n \<Longrightarrow> \<not> d k \<Longrightarrow> (\<forall>j. i \<le> j \<and> j < k \<longrightarrow> d j) \<Longrightarrow> GetTime_poll d n i = k"
proof (induction d n i rule: GetTime_poll.induct)
  case (1 d n i)
  show ?case
  proof (cases "i = k")
    case True
    with "1.prems" show ?thesis by (subst GetTime_poll.simps) simp
  next
    case False
    with "1.prems" have lt: "i < k" by simp
    then have di: "d i" using "1.prems" by simp
    have inn: "i < n" using lt "1.prems" by simp
    have "GetTime_poll d n (Suc i) = k"
      using "1.IH"[OF inn di] lt "1.prems" by simp
    with inn di show ?thesis by (subst GetTime_poll.simps) simp
  qed
qed

lemma GetTime_player_never: "GetTime_player never_finishes p n k = \<lparr>time = - 1, type = LOOP\<rparr>"
  by (simp add: GetTime_player_def never_finishes_def GetTime_poll_all Let_def)

text \<open>
  C1. When the verdict is undetermined the two tags are removed only under
  \<open>else if (verbose)\<close> (lines 402 to 407). With an interpreter that never clears its
  flag and \<open>verbose = false\<close>, a dictionary that holds \<open>length\<close> and \<open>fade\<close> comes
  back unchanged; with \<open>verbose = true\<close> both are removed.
\<close>

theorem GetTime_undetermined_quiet_keeps_tags:
  "fst (GetTime never_finishes stringify SecondsToString filename sdat sq stale_tags False n fadeLoop fadeOneShot) = stale_tags
  \<and> fst (GetTime never_finishes stringify SecondsToString filename sdat sq stale_tags True n fadeLoop fadeOneShot) = []"
  by (simp add: GetTime_def GetTime_passes_def GetTime_player_never static_cast_int_minus_one Let_def
       stale_tags_def TagList_Remove_def bytes_of_def)

theorem GetTime_undetermined_quiet_keeps_tags_witness:
  "map_of (fst (GetTime never_finishes example_stringify example_SecondsToString
                  (bytes_of ''a.sseq'') example_sdat example_sseq stale_tags False 2 10 0))
     (bytes_of ''length'') = Some (bytes_of ''1:00'')"
  using GetTime_undetermined_quiet_keeps_tags
    [of example_stringify example_SecondsToString "bytes_of ''a.sseq''" example_sdat
        example_sseq 2 10 0]
  by (simp add: stale_tags_def bytes_of_def)

lemma GetTime_passes_cases:
  fixes run sdat sq n
  defines "info \<equiv> SEQrecord sdat (entryNumber sq)"
  defines "player1 \<equiv> (Setup new_TimerPlayer sq (origFilename info))\<lparr>maxSeconds := 6000\<rparr>"
  defines "length1 \<equiv> GetTime_player run player1 20 n"
  defines "sbnkInfo \<equiv> BANKrecord sdat (bank info)"
  defines "player2 \<equiv>
     (foldl (\<lambda>p i. if waveArc sbnkInfo i \<noteq> 0xFFFF
                     then p\<lparr>player_swar := (player_swar p)
                            (i := swar (WAVEARCrecord sdat (waveArc sbnkInfo i)))\<rparr>
                     else p)
        ((Setup (new_TimerPlayer\<lparr>sseqVol := Cnv_Scale (vol info)\<rparr>) sq (origFilename info))
           \<lparr>player_sbnk := sbnk sbnkInfo\<rparr>) [0, 1, 2, 3])
       \<lparr>maxSeconds := time length1 + 30, doNotes := True\<rparr>"
  defines "length2 \<equiv> GetTime_player run player2 40 n"
  shows "GetTime_passes run sdat sq n =
     (if static_cast_int (time length1) \<noteq> - 1 \<and> type length1 = END
      then (if static_cast_int (time length2) \<noteq> - 1 then length2 else length1,
            static_cast_int (time length2) \<noteq> - 1,
            [(player1, 20), (player2, 40)])
      else (length1, False, [(player1, 20)]))"
    and "doNotes player2" and "maxSeconds player2 = time length1 + 30"
    and "\<not> doNotes player1" and "maxSeconds player1 = 6000"
  unfolding GetTime_passes_def Let_def info_def player1_def length1_def sbnkInfo_def
    player2_def length2_def
  by (simp_all add: Setup_def new_TimerPlayer_def)

text \<open>
  C5. The first probe polls at most 20 times. A second probe is started exactly when the
  first verdict is determined and is \<open>END\<close>; it plays the notes, has the ceiling of the
  first elapsed time plus 30 seconds and polls at most 40 times. The final verdict is the
  second one when that is determined and the first one otherwise.
\<close>

theorem GetTime_passes_second_pass:
  "let info = SEQrecord sdat (entryNumber sq);
       player1 = (Setup new_TimerPlayer sq (origFilename info))\<lparr>maxSeconds := 6000\<rparr>;
       length1 = GetTime_player run player1 20 n
   in if static_cast_int (time length1) \<noteq> - 1 \<and> type length1 = END
      then \<exists>player2. doNotes player2 \<and> maxSeconds player2 = time length1 + 30
             \<and> GetTime_passes run sdat sq n =
                 (if static_cast_int (time (GetTime_player run player2 40 n)) \<noteq> - 1
                  then GetTime_player run player2 40 n else length1,
                  static_cast_int (time (GetTime_player run player2 40 n)) \<noteq> - 1,
                  [(player1, 20), (player2, 40)])
             \<and> (20 :: nat) < 40
      else GetTime_passes run sdat sq n = (length1, False, [(player1, 20)])"
  unfolding Let_def
  using GetTime_passes_cases(1-3)[where run = run and sdat = sdat and sq = sq and n = n]
  by (auto simp del: foldl_Cons)

lemma GetTime_player_finished:
  "3 < k \<Longrightarrow> run (p\<lparr>loops := n\<rparr>) = finished_result \<Longrightarrow>
   GetTime_player run p k n = \<lparr>time = 12.3, type = END\<rparr>"
proof -
  assume k: "3 < k" and r: "run (p\<lparr>loops := n\<rparr>) = finished_result"
  have "GetTime_poll (\<lambda>i. i < 3) k 0 = 3"
    by (rule GetTime_poll_stop) (use k in simp_all)
  with k r show ?thesis by (simp add: GetTime_player_def finished_result_def Let_def)
qed

lemma static_cast_int_12_3: "static_cast_int 12.3 = 12"
  by (simp add: static_cast_int_def)

lemma GetTime_player_stuck:
  "doNotes p \<Longrightarrow> GetTime_player one_shot_then_stuck p k n = \<lparr>time = - 1, type = LOOP\<rparr>"
  by (simp add: GetTime_player_def one_shot_then_stuck_def never_finishes_def GetTime_poll_all Let_def)

theorem GetTime_passes_second_pass_witness:
  "fst (GetTime_passes one_shot_then_stuck example_sdat example_sseq 2)
     = \<lparr>time = 12.3, type = END\<rparr>
   \<and> map snd (snd (snd (GetTime_passes one_shot_then_stuck example_sdat example_sseq 2))) = [20, 40]"
proof -
  let ?p1 = "(Setup new_TimerPlayer example_sseq
               (origFilename (SEQrecord example_sdat (entryNumber example_sseq))))\<lparr>maxSeconds := 6000\<rparr>"
  have l1: "GetTime_player one_shot_then_stuck ?p1 20 2 = \<lparr>time = 12.3, type = END\<rparr>"
    by (rule GetTime_player_finished)
       (simp_all add: one_shot_then_stuck_def Setup_def new_TimerPlayer_def)
  from GetTime_passes_second_pass[of example_sdat example_sseq one_shot_then_stuck 2]
  obtain player2 where "doNotes player2"
    and "GetTime_passes one_shot_then_stuck example_sdat example_sseq 2 =
           (if static_cast_int (time (GetTime_player one_shot_then_stuck player2 40 2)) \<noteq> - 1
            then GetTime_player one_shot_then_stuck player2 40 2 else \<lparr>time = 12.3, type = END\<rparr>,
            static_cast_int (time (GetTime_player one_shot_then_stuck player2 40 2)) \<noteq> - 1,
            [(?p1, 20), (player2, 40)])"
    unfolding Let_def l1 by (auto simp: static_cast_int_12_3)
  then show ?thesis
    by (simp add: GetTime_player_stuck static_cast_int_minus_one)
qed

lemma map_of_TagList_Set: "map_of (TagList_Set tags k v) = (map_of tags)(k \<mapsto> v)"
  by (induction tags k v rule: TagList_Set.induct) auto

lemma ceiling_minimum:
  "0 \<le> (t::real) \<Longrightarrow> \<lceil>if static_cast_int t = 0 then 1 else t\<rceil> = max 1 \<lceil>t\<rceil>"
  unfolding static_cast_int_def
  by (auto simp: max_def) linarith+

text \<open>
  C7. For a determined final verdict with an elapsed time that is not negative, the
  dictionary afterwards maps \<open>length\<close> to the formatted ceiling of the elapsed seconds,
  at least 1, and \<open>fade\<close> to the text of the loop constant when the classification is
  \<open>LOOP\<close> and to the text of the one-shot constant otherwise.
\<close>

theorem GetTime_sets_length_and_fade:
  assumes "GetTime_passes run sdat sq n = (v, got, probes)"
    and "static_cast_int (time v) \<noteq> - 1"
    and "0 \<le> time v"
  shows "map_of (fst (GetTime run stringify SecondsToString filename sdat sq tags verbose n
                        fadeLoop fadeOneShot)) (bytes_of ''length'')
           = Some (SecondsToString (of_int (max 1 \<lceil>time v\<rceil>)))
       \<and> map_of (fst (GetTime run stringify SecondsToString filename sdat sq tags verbose n
                        fadeLoop fadeOneShot)) (bytes_of ''fade'')
           = Some (if type v = LOOP then stringify fadeLoop else stringify fadeOneShot)"
proof -
  have ne: "bytes_of ''fade'' \<noteq> bytes_of ''length''" by (simp add: bytes_of_def)
  have c: "\<lceil>time (if static_cast_int (time v) = 0 then v\<lparr>time := 1\<rparr> else v)\<rceil> = max 1 \<lceil>time v\<rceil>"
    using ceiling_minimum[OF assms(3)] by (cases "static_cast_int (time v) = 0") simp_all
  show ?thesis
    using assms(1,2) ne c
    by (simp add: GetTime_def Let_def map_of_TagList_Set)
qed

lemma passes_one_shot:
  "GetTime_passes one_shot example_sdat example_sseq 2 =
     (\<lparr>time = 12.3, type = END\<rparr>, True, snd (snd (GetTime_passes one_shot example_sdat example_sseq 2)))"
proof -
  have g: "GetTime_player one_shot p k 2 = \<lparr>time = 12.3, type = END\<rparr>" if "3 < k" for p k
    using that by (rule GetTime_player_finished) (simp add: one_shot_def)
  show ?thesis
    unfolding GetTime_passes_cases(1)
    by (simp add: g static_cast_int_12_3 del: foldl_Cons)
qed

lemma passes_looping:
  "GetTime_passes looping example_sdat example_sseq 2 =
     (\<lparr>time = 95, type = LOOP\<rparr>, False, snd (snd (GetTime_passes looping example_sdat example_sseq 2)))"
proof -
  have "GetTime_poll (\<lambda>i. i < 3) 20 0 = 3"
    by (rule GetTime_poll_stop) simp_all
  then have g: "GetTime_player looping p 20 2 = \<lparr>time = 95, type = LOOP\<rparr>" for p
    by (simp add: GetTime_player_def looping_def looping_result_def Let_def)
  show ?thesis
    unfolding GetTime_passes_cases(1)
    by (simp add: g del: foldl_Cons)
qed

theorem GetTime_sets_length_and_fade_witness:
  "map_of (fst (GetTime one_shot example_stringify example_SecondsToString (bytes_of ''a.sseq'')
                  example_sdat example_sseq stale_tags False 2 10 0)) (bytes_of ''length'')
     = Some (bytes_of ''0:13'')
   \<and> map_of (fst (GetTime one_shot example_stringify example_SecondsToString (bytes_of ''a.sseq'')
                  example_sdat example_sseq stale_tags False 2 10 0)) (bytes_of ''fade'')
     = Some (bytes_of ''00'')
   \<and> map_of (fst (GetTime looping example_stringify example_SecondsToString (bytes_of ''a.sseq'')
                  example_sdat example_sseq [] False 2 10 0)) (bytes_of ''length'')
     = Some (bytes_of ''1:35'')
   \<and> map_of (fst (GetTime looping example_stringify example_SecondsToString (bytes_of ''a.sseq'')
                  example_sdat example_sseq [] False 2 10 0)) (bytes_of ''fade'')
     = Some (bytes_of ''10'')"
proof -
  have d1: "static_cast_int (time \<lparr>time = 12.3, type = END\<rparr>) \<noteq> - 1"
    by (simp add: static_cast_int_def)
  have p1: "0 \<le> time \<lparr>time = 12.3, type = END\<rparr>" by simp
  have d2: "static_cast_int (time \<lparr>time = 95, type = LOOP\<rparr>) \<noteq> - 1"
    by (simp add: static_cast_int_def)
  have p2: "0 \<le> time \<lparr>time = 95, type = LOOP\<rparr>" by simp
  show ?thesis
    using GetTime_sets_length_and_fade [OF passes_one_shot d1 p1,
        of example_stringify example_SecondsToString "bytes_of ''a.sseq''" stale_tags False 10 0]
      GetTime_sets_length_and_fade [OF passes_looping d2 p2,
        of example_stringify example_SecondsToString "bytes_of ''a.sseq''" "[]" False 10 0]
    by (simp add: example_SecondsToString_def example_stringify_def digit_def bytes_of_def)
qed

end
